theory Spec2Isabelle
  imports Complex_Main "HOL-Library.Multiset"
begin

section \<open>Stock Hunter: support levels from weekly lows\<close>

text \<open>
  The handler \<^verbatim>\<open>analyze_stock\<close> of \<^verbatim>\<open>main.py\<close> fetches a weekly price table and then
  runs a pure computation over three values taken from it: the column of weekly lows
  (\<^verbatim>\<open>df['Low']\<close>), the last close (\<^verbatim>\<open>current_price\<close>) and the 52-week high
  (\<^verbatim>\<open>one_year_high\<close>). This theory embeds that computation (lines 69 to 124 of the
  source, and the two fields of the response it decides).

  Prices are \<^verbatim>\<open>numpy.float64\<close> in the source. They are modelled as \<^typ>\<open>real\<close> with
  exact arithmetic: the rounding error of binary floating point, infinities and NaN are
  outside the model. The constant \<^verbatim>\<open>1.05\<close> is the real number \<open>105 / 100\<close>. Counts are
  Python integers and are modelled as \<^typ>\<open>nat\<close> (lengths) and \<^typ>\<open>int\<close> (rounded weights).
\<close>

subsection \<open>Errors\<close>

text \<open>
  \<open>IndexError\<close>: \<^verbatim>\<open>.iloc[i]\<close> out of bounds. \<open>ZeroDivisionError\<close>: division of Python
  integers by zero. \<open>NumericFault\<close>: division of a \<^verbatim>\<open>numpy.float64\<close> by zero, which
  yields an infinity or NaN (with a warning) instead of a number.
\<close>

datatype error = IndexError | ZeroDivisionError | NumericFault

subsection \<open>Fractal-low scan (lines 69 to 79)\<close>

text \<open>\<^verbatim>\<open>df['Low'].iloc[i]\<close> for an index that is not negative.\<close>

definition iloc :: "real list \<Rightarrow> nat \<Rightarrow> error + real" where
  "iloc col i = (if i < length col then Inr (col ! i) else Inl IndexError)"

text \<open>\<^verbatim>\<open>low_val < df['Low'].iloc[j]\<close>\<close>

definition lt_at :: "real list \<Rightarrow> real \<Rightarrow> nat \<Rightarrow> error + bool" where
  "lt_at col v j = (case iloc col j of Inl e \<Rightarrow> Inl e | Inr w \<Rightarrow> Inr (v < w))"

text \<open>Python's \<^verbatim>\<open>and\<close>: the right operand is evaluated only when the left one is true.\<close>

definition and_then :: "error + bool \<Rightarrow> error + bool \<Rightarrow> error + bool" where
  "and_then a b = (case a of Inl e \<Rightarrow> Inl e | Inr t \<Rightarrow> (if t then b else Inr False))"

text \<open>
  The body of the loop over \<^verbatim>\<open>i\<close>; \<open>levels\<close> is the list being appended to. In the
  loop \<open>2 \<le> i\<close>, so \<open>i - 1\<close> and \<open>i - 2\<close> are the source's indices.
\<close>

definition scan_body :: "real list \<Rightarrow> nat \<Rightarrow> real list \<Rightarrow> error + real list" where
  "scan_body lows i levels =
     (case iloc lows i of
        Inl e \<Rightarrow> Inl e
      | Inr low_val \<Rightarrow>
          (case and_then (lt_at lows low_val (i - 1))
                 (and_then (lt_at lows low_val (i - 2))
                 (and_then (lt_at lows low_val (i + 1))
                           (lt_at lows low_val (i + 2)))) of
             Inl e \<Rightarrow> Inl e
           | Inr t \<Rightarrow> Inr (if t then levels @ [low_val] else levels)))"

text \<open>\<^verbatim>\<open>for i in range(...)\<close>, over the list of the indices still to visit.\<close>

fun scan_loop :: "real list \<Rightarrow> nat list \<Rightarrow> real list \<Rightarrow> error + real list" where
  "scan_loop lows [] levels = Inr levels"
| "scan_loop lows (i # rest) levels =
     (case scan_body lows i levels of
        Inl e \<Rightarrow> Inl e
      | Inr levels' \<Rightarrow> scan_loop lows rest levels')"

definition find_levels :: "real list \<Rightarrow> error + real list" where
  "find_levels lows =
     (if length lows > 5 then scan_loop lows [2 ..< length lows - 2] [] else Inr [])"

subsection \<open>Clustering (lines 81 to 96)\<close>

text \<open>
  The inner loop \<^verbatim>\<open>for x in levels\<close>: a candidate within 5 percent above \<open>base\<close> joins
  the group \<open>grp\<close>, any other one is kept for a later cluster.
\<close>

fun absorb :: "real \<Rightarrow> real list \<Rightarrow> real list \<Rightarrow> real list \<Rightarrow> real list \<times> real list" where
  "absorb base [] grp keep = (grp, keep)"
| "absorb base (x # rest) grp keep =
     (if x \<le> base * 1.05 then absorb base rest (grp @ [x]) keep
      else absorb base rest grp (keep @ [x]))"

text \<open>
  \<^verbatim>\<open>while levels\<close>: \<^verbatim>\<open>levels.pop(0)\<close> is the head of the list; every round appends the
  pair (mean, size) of its group to \<open>consolidated\<close>. The group \<open>grp\<close> always holds \<open>base\<close>, so
  its length is not zero.
\<close>

function cluster_loop :: "real list \<Rightarrow> (real \<times> nat) list \<Rightarrow> (real \<times> nat) list" where
  "cluster_loop [] consolidated = consolidated"
| "cluster_loop (base # levels) consolidated =
     (case absorb base levels [base] [] of
        (grp, keep) \<Rightarrow>
          cluster_loop keep
            (consolidated @ [(sum_list grp / real (length grp), length grp)]))"
  by pat_completeness auto
termination
proof -
  have kept: "snd (absorb b xs g k) = k @ filter (\<lambda>x. \<not> x \<le> b * 1.05) xs" for b xs g k
    by (induction xs arbitrary: g k) simp_all
  have "length keep < Suc (length levels)"
    if "(grp, keep) = absorb base levels [base] []" for base levels grp keep
    using kept [of base levels "[base]" "[]"] that [symmetric]
    by (simp add: less_Suc_eq_le)
  then show ?thesis
    by (relation "measure (\<lambda>(levels, consolidated). length levels)") auto
qed

text \<open>\<^verbatim>\<open>if levels: levels.sort(); while levels: ...\<close>\<close>

definition consolidate :: "real list \<Rightarrow> (real \<times> nat) list" where
  "consolidate levels = (if levels \<noteq> [] then cluster_loop (sort levels) [] else [])"

text \<open>
  For the statements about clusters: the groups the loop forms (the value of
  \<^verbatim>\<open>group\<close> at the end of each round, in the order of the rounds), and the pair that
  the loop appends for a group.
\<close>

function cluster_groups :: "real list \<Rightarrow> real list list" where
  "cluster_groups [] = []"
| "cluster_groups (base # levels) =
     (case absorb base levels [base] [] of (grp, keep) \<Rightarrow> grp # cluster_groups keep)"
  by pat_completeness auto
termination
proof -
  have kept: "snd (absorb b xs g k) = k @ filter (\<lambda>x. \<not> x \<le> b * 1.05) xs" for b xs g k
    by (induction xs arbitrary: g k) simp_all
  have "length keep < Suc (length levels)"
    if "(grp, keep) = absorb base levels [base] []" for base levels grp keep
    using kept [of base levels "[base]" "[]"] that [symmetric]
    by (simp add: less_Suc_eq_le)
  then show ?thesis
    by (relation "measure length") auto
qed

definition summary :: "real list \<Rightarrow> real \<times> nat" where
  "summary grp = (sum_list grp / real (length grp), length grp)"

subsection \<open>Selection of the levels below the current price (lines 98 to 101)\<close>

text \<open>
  \<^verbatim>\<open>sort(key=..., reverse=True)\<close> is stable: levels with equal keys keep their order.
  \<open>sort_key\<close> on the negated key is the same stable descending sort.
\<close>

definition select_waiting :: "(real \<times> nat) list \<Rightarrow> real \<Rightarrow> (real \<times> nat) list" where
  "select_waiting consolidated current_price =
     sort_key (\<lambda>l. - fst l) (filter (\<lambda>l. fst l < current_price) consolidated)"

definition select_top_3 :: "(real \<times> nat) list \<Rightarrow> real \<Rightarrow> (real \<times> nat) list" where
  "select_top_3 consolidated current_price = take 3 (select_waiting consolidated current_price)"

subsection \<open>The plan (lines 103 to 124)\<close>

record BuyLevel =
  order :: nat
  price :: real
  weight_percent :: int
  discount_from_high_pct :: real
  gap_from_current_pct :: real

text \<open>
  The two fields of \<^verbatim>\<open>StockAnalysisResponse\<close> that the computation decides. The other
  fields (symbol, company name, date, the rounded current price, year high and year low)
  are copied from the fetched data.
\<close>

record StockAnalysisResponse =
  status :: string
  strategic_plan :: "BuyLevel list"

text \<open>Python's \<^verbatim>\<open>round(x)\<close>: to the nearest integer, a tie to the even one.\<close>

definition py_round :: "real \<Rightarrow> int" where
  "py_round x =
     (let f = \<lfloor>x\<rfloor>; d = x - of_int f
      in if d < 1 / 2 then f else if 1 / 2 < d then f + 1 else if even f then f else f + 1)"

text \<open>\<^verbatim>\<open>round(x, 2)\<close>: to the nearest multiple of 0.01, a tie to the even one.\<close>

definition py_round2 :: "real \<Rightarrow> real" where
  "py_round2 x = of_int (py_round (x * 100)) / 100"

text \<open>
  The status messages. \<open>status_no_level\<close> is the UTF-8 encoding of the Thai message of
  line 106 (47 code points: "the current price is the lowest in 5 years, or no support
  was found").
\<close>

definition status_no_level :: string where
  "status_no_level =
   [CHR 0xE0, CHR 0xB8, CHR 0xA3, CHR 0xE0, CHR 0xB8, CHR 0xB2, CHR 0xE0, CHR 0xB8,
    CHR 0x84, CHR 0xE0, CHR 0xB8, CHR 0xB2, CHR 0xE0, CHR 0xB8, CHR 0x9B, CHR 0xE0,
    CHR 0xB8, CHR 0xB1, CHR 0xE0, CHR 0xB8, CHR 0x88, CHR 0xE0, CHR 0xB8, CHR 0x88,
    CHR 0xE0, CHR 0xB8, CHR 0xB8, CHR 0xE0, CHR 0xB8, CHR 0x9A, CHR 0xE0, CHR 0xB8,
    CHR 0xB1, CHR 0xE0, CHR 0xB8, CHR 0x99, CHR 0xE0, CHR 0xB8, CHR 0x95, CHR 0xE0,
    CHR 0xB9, CHR 0x88, CHR 0xE0, CHR 0xB8, CHR 0xB3, CHR 0xE0, CHR 0xB8, CHR 0x97,
    CHR 0xE0, CHR 0xB8, CHR 0xB5, CHR 0xE0, CHR 0xB9, CHR 0x88, CHR 0xE0, CHR 0xB8,
    CHR 0xAA, CHR 0xE0, CHR 0xB8, CHR 0xB8, CHR 0xE0, CHR 0xB8, CHR 0x94, CHR 0xE0,
    CHR 0xB9, CHR 0x83, CHR 0xE0, CHR 0xB8, CHR 0x99, CHR 0xE0, CHR 0xB8, CHR 0xA3,
    CHR 0xE0, CHR 0xB8, CHR 0xAD, CHR 0xE0, CHR 0xB8, CHR 0x9A, CHR '' '', CHR ''5'',
    CHR '' '', CHR 0xE0, CHR 0xB8, CHR 0x9B, CHR 0xE0, CHR 0xB8, CHR 0xB5, CHR '' '',
    CHR 0xE0, CHR 0xB8, CHR 0xAB, CHR 0xE0, CHR 0xB8, CHR 0xA3, CHR 0xE0, CHR 0xB8,
    CHR 0xB7, CHR 0xE0, CHR 0xB8, CHR 0xAD, CHR 0xE0, CHR 0xB9, CHR 0x84, CHR 0xE0,
    CHR 0xB8, CHR 0xA1, CHR 0xE0, CHR 0xB9, CHR 0x88, CHR 0xE0, CHR 0xB8, CHR 0x9E,
    CHR 0xE0, CHR 0xB8, CHR 0x9A, CHR 0xE0, CHR 0xB9, CHR 0x81, CHR 0xE0, CHR 0xB8,
    CHR 0x99, CHR 0xE0, CHR 0xB8, CHR 0xA7, CHR 0xE0, CHR 0xB8, CHR 0xA3, CHR 0xE0,
    CHR 0xB8, CHR 0xB1, CHR 0xE0, CHR 0xB8, CHR 0x9A]"

definition status_found :: string where
  "status_found = ''Found Strategic Levels''"

text \<open>
  The loop \<^verbatim>\<open>for i, (price, count) in enumerate(top_3)\<close>; \<open>i\<close> is the index of the
  head of the rest, \<open>plan\<close> the list \<^verbatim>\<open>strategic_plan\<close> built so far. The three
  divisions are evaluated in the source's order.
\<close>

fun plan_loop ::
  "real \<Rightarrow> real \<Rightarrow> nat \<Rightarrow> nat \<Rightarrow> (real \<times> nat) list \<Rightarrow> BuyLevel list \<Rightarrow> error + BuyLevel list"
where
  "plan_loop current_price one_year_high total_strength i [] plan = Inr plan"
| "plan_loop current_price one_year_high total_strength i ((p, cnt) # rest) plan =
     (if total_strength = 0 then Inl ZeroDivisionError
      else
        let weight = py_round (real cnt / real total_strength * 100) in
        if one_year_high = 0 then Inl NumericFault
        else
          let discount_pct = (one_year_high - p) / one_year_high * 100 in
          if current_price = 0 then Inl NumericFault
          else
            let gap = (current_price - p) / current_price * 100 in
            plan_loop current_price one_year_high total_strength (i + 1) rest
              (plan @ [\<lparr>order = i + 1, price = py_round2 p, weight_percent = weight,
                         discount_from_high_pct = py_round2 discount_pct,
                         gap_from_current_pct = py_round2 gap\<rparr>]))"

definition build_plan ::
  "(real \<times> nat) list \<Rightarrow> real \<Rightarrow> real \<Rightarrow> error + StockAnalysisResponse"
where
  "build_plan top_3 current_price one_year_high =
     (if top_3 = [] then Inr \<lparr>status = status_no_level, strategic_plan = []\<rparr>
      else
        let total_strength = sum_list (map snd top_3) in
        (case plan_loop current_price one_year_high total_strength 0 top_3 [] of
           Inl e \<Rightarrow> Inl e
         | Inr plan \<Rightarrow> Inr \<lparr>status = status_found, strategic_plan = plan\<rparr>))"

text \<open>
  For the statements about the plan: the entry that one round of the loop appends for
  the level \<open>(p, cnt)\<close> at index \<open>i\<close>. The percentages are computed from the level's
  mean \<open>p\<close>, not from the rounded price of the entry.
\<close>

definition entry :: "real \<Rightarrow> real \<Rightarrow> nat \<Rightarrow> nat \<times> real \<times> nat \<Rightarrow> BuyLevel" where
  "entry current_price one_year_high total_strength ip =
     (case ip of (i, p, cnt) \<Rightarrow>
        \<lparr>order = i + 1, price = py_round2 p,
         weight_percent = py_round (real cnt / real total_strength * 100),
         discount_from_high_pct = py_round2 ((one_year_high - p) / one_year_high * 100),
         gap_from_current_pct = py_round2 ((current_price - p) / current_price * 100)\<rparr>)"

subsection \<open>The whole computation\<close>

definition analyze_core :: "real list \<Rightarrow> real \<Rightarrow> real \<Rightarrow> error + StockAnalysisResponse" where
  "analyze_core lows current_price one_year_high =
     (case find_levels lows of
        Inl e \<Rightarrow> Inl e
      | Inr levels \<Rightarrow>
          build_plan (select_top_3 (consolidate levels) current_price)
            current_price one_year_high)"

subsection \<open>The computation as the handler runs it\<close>

text \<open>
  The same statements as a sequence of assignments to the handler's variables. The
  store holds the three values read from the fetched table and the variables the
  statements assign; \<open>plan\<close> is the variable \<^verbatim>\<open>strategic_plan\<close>. In Python the
  variables of a call are fresh; here a run may start from any store, for example the
  one an earlier run left behind. A run reads \<open>df_Low\<close>, \<open>current_price\<close> and
  \<open>one_year_high\<close> and assigns the other variables before it reads them. After the
  loop \<^verbatim>\<open>while levels\<close> the list \<open>levels\<close> is empty.
\<close>

record store =
  df_Low :: "real list"
  current_price :: real
  one_year_high :: real
  levels :: "real list"
  consolidated :: "(real \<times> nat) list"
  waiting :: "(real \<times> nat) list"
  top_3 :: "(real \<times> nat) list"
  status_msg :: string
  plan :: "BuyLevel list"

definition analyze_run :: "store \<Rightarrow> error + store" where
  "analyze_run s0 =
     (let s1 = s0\<lparr>levels := []\<rparr> in
      case (if length (df_Low s1) > 5
            then scan_loop (df_Low s1) [2 ..< length (df_Low s1) - 2] (levels s1)
            else Inr (levels s1)) of
        Inl e \<Rightarrow> Inl e
      | Inr lv \<Rightarrow>
          let s2 = s1\<lparr>levels := lv, consolidated := []\<rparr>;
              s3 = (if levels s2 \<noteq> []
                    then s2\<lparr>levels := [],
                            consolidated := cluster_loop (sort (levels s2)) (consolidated s2)\<rparr>
                    else s2);
              s4 = s3\<lparr>waiting := filter (\<lambda>l. fst l < current_price s3) (consolidated s3)\<rparr>;
              s5 = s4\<lparr>waiting := sort_key (\<lambda>l. - fst l) (waiting s4)\<rparr>;
              s6 = s5\<lparr>top_3 := take 3 (waiting s5)\<rparr>;
              s7 = s6\<lparr>plan := []\<rparr>
          in if top_3 s7 = [] then Inr (s7\<lparr>status_msg := status_no_level\<rparr>)
             else
               let s8 = s7\<lparr>status_msg := status_found\<rparr>;
                   total_strength = sum_list (map snd (top_3 s8))
               in (case plan_loop (current_price s8) (one_year_high s8) total_strength 0
                          (top_3 s8) (plan s8) of
                     Inl e \<Rightarrow> Inl e
                   | Inr p \<Rightarrow> Inr (s8\<lparr>plan := p\<rparr>)))"

text \<open>Lines 126 to 135: \<^verbatim>\<open>status=status_msg, strategic_plan=strategic_plan\<close>.\<close>

definition response :: "store \<Rightarrow> StockAnalysisResponse" where
  "response s = \<lparr>status = status_msg s, strategic_plan = plan s\<rparr>"

section \<open>Properties of the scan\<close>

lemma scan_body_in_range:
  assumes "2 \<le> i" and "i + 2 < length lows"
  shows "scan_body lows i cands =
           Inr (if lows ! i < lows ! (i - 1) \<and> lows ! i < lows ! (i - 2) \<and>
                   lows ! i < lows ! (i + 1) \<and> lows ! i < lows ! (i + 2)
                then cands @ [lows ! i] else cands)"
proof -
  from assms have "i < length lows" "i - 1 < length lows" "i - 2 < length lows"
    "i + 1 < length lows" by simp_all
  with assms(2) have "iloc lows i = Inr (lows ! i)"
    and "\<And>v. lt_at lows v (i - 1) = Inr (v < lows ! (i - 1))"
    and "\<And>v. lt_at lows v (i - 2) = Inr (v < lows ! (i - 2))"
    and "\<And>v. lt_at lows v (i + 1) = Inr (v < lows ! (i + 1))"
    and "\<And>v. lt_at lows v (i + 2) = Inr (v < lows ! (i + 2))"
    unfolding iloc_def lt_at_def by simp_all
  then show ?thesis
    unfolding scan_body_def and_then_def by simp
qed

lemma scan_loop_in_range:
  assumes "\<forall>i \<in> set idxs. 2 \<le> i \<and> i + 2 < length lows"
  shows "scan_loop lows idxs cands =
           Inr (cands @ map (\<lambda>i. lows ! i)
                  (filter (\<lambda>i. lows ! i < lows ! (i - 1) \<and> lows ! i < lows ! (i - 2) \<and>
                               lows ! i < lows ! (i + 1) \<and> lows ! i < lows ! (i + 2)) idxs))"
  using assms
proof (induction idxs arbitrary: cands)
  case Nil
  then show ?case by simp
next
  case (Cons i rest)
  then have "2 \<le> i" and "i + 2 < length lows" by simp_all
  then have "scan_body lows i cands =
           Inr (if lows ! i < lows ! (i - 1) \<and> lows ! i < lows ! (i - 2) \<and>
                   lows ! i < lows ! (i + 1) \<and> lows ! i < lows ! (i + 2)
                then cands @ [lows ! i] else cands)"
    by (rule scan_body_in_range)
  with Cons show ?case by simp
qed

text \<open>
  C1. For a series of more than 5 points the scan returns, in index order, the lows at
  exactly the indices \<open>i\<close> with \<open>2 \<le> i \<le> len - 3\<close> whose low is strictly below the lows at
  \<open>i - 2\<close>, \<open>i - 1\<close>, \<open>i + 1\<close> and \<open>i + 2\<close>; at an index of that range whose low equals one
  of the four neighbours the loop body appends nothing.
\<close>

theorem scan_marks_strict_fractals:
  assumes "length lows > 5"
  shows "find_levels lows =
           Inr (map (\<lambda>i. lows ! i)
                 (filter (\<lambda>i. lows ! i < lows ! (i - 2) \<and> lows ! i < lows ! (i - 1) \<and>
                              lows ! i < lows ! (i + 1) \<and> lows ! i < lows ! (i + 2))
                    [2 ..< length lows - 2]))
         \<and> (\<forall>i cands. 2 \<le> i \<and> i \<le> length lows - 3 \<and>
               (lows ! i = lows ! (i - 2) \<or> lows ! i = lows ! (i - 1) \<or>
                lows ! i = lows ! (i + 1) \<or> lows ! i = lows ! (i + 2))
               \<longrightarrow> scan_body lows i cands = Inr cands)"
proof -
  have "\<forall>i \<in> set [2 ..< length lows - 2]. 2 \<le> i \<and> i + 2 < length lows"
    by auto
  then have "scan_loop lows [2 ..< length lows - 2] [] =
           Inr ([] @ map (\<lambda>i. lows ! i)
                  (filter (\<lambda>i. lows ! i < lows ! (i - 1) \<and> lows ! i < lows ! (i - 2) \<and>
                               lows ! i < lows ! (i + 1) \<and> lows ! i < lows ! (i + 2))
                     [2 ..< length lows - 2]))"
    by (rule scan_loop_in_range)
  moreover have "(\<lambda>i. lows ! i < lows ! (i - 1) \<and> lows ! i < lows ! (i - 2) \<and>
                       lows ! i < lows ! (i + 1) \<and> lows ! i < lows ! (i + 2))
               = (\<lambda>i. lows ! i < lows ! (i - 2) \<and> lows ! i < lows ! (i - 1) \<and>
                       lows ! i < lows ! (i + 1) \<and> lows ! i < lows ! (i + 2))"
    by auto
  ultimately have first: "find_levels lows =
           Inr (map (\<lambda>i. lows ! i)
                 (filter (\<lambda>i. lows ! i < lows ! (i - 2) \<and> lows ! i < lows ! (i - 1) \<and>
                              lows ! i < lows ! (i + 1) \<and> lows ! i < lows ! (i + 2))
                    [2 ..< length lows - 2]))"
    using assms by (simp add: find_levels_def)
  have second: "scan_body lows i cands = Inr cands"
    if "2 \<le> i \<and> i \<le> length lows - 3 \<and>
         (lows ! i = lows ! (i - 2) \<or> lows ! i = lows ! (i - 1) \<or>
          lows ! i = lows ! (i + 1) \<or> lows ! i = lows ! (i + 2))" for i cands
  proof -
    from that assms have "2 \<le> i" and "i + 2 < length lows" by auto
    then have "scan_body lows i cands =
           Inr (if lows ! i < lows ! (i - 1) \<and> lows ! i < lows ! (i - 2) \<and>
                   lows ! i < lows ! (i + 1) \<and> lows ! i < lows ! (i + 2)
                then cands @ [lows ! i] else cands)"
      by (rule scan_body_in_range)
    with that show ?thesis by auto
  qed
  from first second show ?thesis by blast
qed

theorem scan_marks_strict_fractals_witness:
  "length [10, 9, 8, 9, 10, 9, 8, 8, 10 :: real] > 5
   \<and> find_levels [10, 9, 8, 9, 10, 9, 8, 8, 10] = Inr [8]
   \<and> scan_body [10, 9, 8, 9, 10, 9, 8, 8, 10] 6 [8] = Inr [8]"
proof -
  have len: "length [10, 9, 8, 9, 10, 9, 8, 8, 10 :: real] > 5" by simp
  have idx: "[2 ..< length [10, 9, 8, 9, 10, 9, 8, 8, 10 :: real] - 2] = [2, 3, 4, 5, 6]"
    by (simp add: upt_rec)
  from scan_marks_strict_fractals [OF len]
  have "find_levels [10, 9, 8, 9, 10, 9, 8, 8, 10] = Inr [8]"
    and "scan_body [10, 9, 8, 9, 10, 9, 8, 8, 10] 6 [8] = Inr [8]"
    unfolding idx by simp_all
  with len show ?thesis by simp
qed

text \<open>
  C5. For a series of at most 5 points the scan returns the empty list of candidates,
  as a value and not as an error.
\<close>

theorem short_series_no_candidates:
  assumes "length lows \<le> 5"
  shows "find_levels lows = Inr []"
  using assms by (simp add: find_levels_def)

theorem short_series_no_candidates_witness:
  "length [3, 1, 0, 1, 3 :: real] \<le> 5 \<and> find_levels [3, 1, 0, 1, 3] = Inr []"
  using short_series_no_candidates [of "[3, 1, 0, 1, 3]"] by simp

section \<open>Properties of the clustering\<close>

lemma absorb_filter:
  "absorb base xs grp keep =
     (grp @ filter (\<lambda>x. x \<le> base * 1.05) xs, keep @ filter (\<lambda>x. \<not> x \<le> base * 1.05) xs)"
  by (induction xs arbitrary: grp keep) simp_all

lemma cluster_groups_Cons:
  "cluster_groups (b # rest) =
     (b # filter (\<lambda>x. x \<le> b * 1.05) rest) # cluster_groups (filter (\<lambda>x. \<not> x \<le> b * 1.05) rest)"
  by (simp add: absorb_filter)

lemma cluster_loop_Cons:
  "cluster_loop (b # rest) acc =
     cluster_loop (filter (\<lambda>x. \<not> x \<le> b * 1.05) rest)
       (acc @ [summary (b # filter (\<lambda>x. x \<le> b * 1.05) rest)])"
  by (simp add: absorb_filter summary_def)

lemma cluster_loop_groups:
  "cluster_loop xs acc = acc @ map summary (cluster_groups xs)"
proof (induction xs arbitrary: acc rule: cluster_groups.induct)
  case 1
  show ?case by simp
next
  case (2 base cands)
  have "cluster_loop (filter (\<lambda>x. \<not> x \<le> base * 1.05) cands) acc' =
        acc' @ map summary (cluster_groups (filter (\<lambda>x. \<not> x \<le> base * 1.05) cands))" for acc'
    by (rule "2.IH") (simp_all add: absorb_filter)
  then show ?case
    by (simp only: cluster_loop_Cons cluster_groups_Cons) simp
qed




lemma cluster_groups_nonempty: "g \<in> set (cluster_groups xs) \<Longrightarrow> g \<noteq> []"
proof (induction xs rule: cluster_groups.induct)
  case 1
  then show ?case by simp
next
  case (2 base cands)
  have "g \<in> set (cluster_groups (filter (\<lambda>x. \<not> x \<le> base * 1.05) cands)) \<Longrightarrow> g \<noteq> []"
    by (rule "2.IH") (simp_all add: absorb_filter)
  with "2.prems" show ?case
    by (simp only: cluster_groups_Cons) auto
qed











lemma consolidate_groups:
  "consolidate cands = map summary (cluster_groups (sort cands))"
proof (cases "cands = []")
  case True
  then show ?thesis by (simp add: consolidate_def)
next
  case False
  have "cluster_loop (sort cands) [] = [] @ map summary (cluster_groups (sort cands))"
    by (rule cluster_loop_groups)
  with False show ?thesis by (simp add: consolidate_def)
qed





section \<open>Properties of the rounding and of the plan loop\<close>

lemma plan_loop_result:
  "plan_loop cp yh tot i sel acc =
     (if sel = [] then Inr acc
      else if tot = 0 then Inl ZeroDivisionError
      else if yh = 0 then Inl NumericFault
      else if cp = 0 then Inl NumericFault
      else Inr (acc @ map (entry cp yh tot) (zip [i ..< i + length sel] sel)))"
proof (induction sel arbitrary: i acc)
  case Nil
  show ?case by simp
next
  case (Cons a sel)
  obtain p cnt where a: "a = (p, cnt)" by (cases a)
  have upt: "[i ..< i + length (a # sel)] = i # [Suc i ..< Suc i + length sel]"
    by (subst upt_conv_Cons) simp_all
  show ?case
    unfolding a upt [unfolded a]
    by (simp add: Cons.IH entry_def Let_def)
qed

lemma build_plan_result:
  "build_plan sel cp yh =
     (if sel = [] then Inr \<lparr>status = status_no_level, strategic_plan = []\<rparr>
      else if sum_list (map snd sel) = 0 then Inl ZeroDivisionError
      else if yh = 0 then Inl NumericFault
      else if cp = 0 then Inl NumericFault
      else Inr \<lparr>status = status_found,
                strategic_plan =
                  map (entry cp yh (sum_list (map snd sel))) (zip [0 ..< length sel] sel)\<rparr>)"
  by (simp add: build_plan_def plan_loop_result Let_def)




lemma py_round_of_int: "py_round (of_int k) = k"
  by (simp add: py_round_def)




section \<open>Properties of the selection and of the plan\<close>

lemma find_levels_total: "\<exists>lv. find_levels lows = Inr lv"
proof (cases "length lows > 5")
  case True
  have "\<forall>i \<in> set [2 ..< length lows - 2]. 2 \<le> i \<and> i + 2 < length lows" by auto
  from scan_loop_in_range [OF this] True show ?thesis
    by (simp add: find_levels_def)
next
  case False
  then show ?thesis by (simp add: find_levels_def)
qed

lemma consolidate_strength_pos: "l \<in> set (consolidate cands) \<Longrightarrow> 0 < snd l"
  using cluster_groups_nonempty
  by (auto simp: consolidate_groups summary_def)

lemma set_select_waiting:
  "set (select_waiting lvls cp) = {l \<in> set lvls. fst l < cp}"
  by (simp add: select_waiting_def)

lemma set_select_top_3:
  "set (select_top_3 lvls cp) \<subseteq> {l \<in> set lvls. fst l < cp}"
  unfolding select_top_3_def using set_take_subset [of 3 "select_waiting lvls cp"]
  by (simp only: set_select_waiting)















lemma selected_strength_pos:
  assumes "select_top_3 (consolidate lv) cp \<noteq> []"
  shows "sum_list (map snd (select_top_3 (consolidate lv) cp)) \<noteq> 0"
proof -
  let ?sel = "select_top_3 (consolidate lv) cp"
  from assms obtain l where l: "l \<in> set ?sel" by (cases ?sel) auto
  with set_select_top_3 [of "consolidate lv" cp] have "l \<in> set (consolidate lv)" by blast
  then have "0 < snd l" by (rule consolidate_strength_pos)
  with l show ?thesis by (auto simp: sum_list_eq_0_iff)
qed

lemma analyze_core_result:
  assumes "find_levels lows = Inr lv"
  shows "analyze_core lows cp yh =
     (let sel = select_top_3 (consolidate lv) cp in
      if sel = [] then Inr \<lparr>status = status_no_level, strategic_plan = []\<rparr>
      else if yh = 0 then Inl NumericFault
      else if cp = 0 then Inl NumericFault
      else Inr \<lparr>status = status_found,
                strategic_plan =
                  map (entry cp yh (sum_list (map snd sel))) (zip [0 ..< length sel] sel)\<rparr>)"
proof (cases "select_top_3 (consolidate lv) cp = []")
  case True
  with assms show ?thesis by (simp add: analyze_core_def build_plan_result)
next
  case False
  note T = selected_strength_pos [OF this]
  have "build_plan (select_top_3 (consolidate lv) cp) cp yh =
     (if yh = 0 then Inl NumericFault
      else if cp = 0 then Inl NumericFault
      else Inr \<lparr>status = status_found,
                strategic_plan =
                  map (entry cp yh (sum_list (map snd (select_top_3 (consolidate lv) cp))))
                    (zip [0 ..< length (select_top_3 (consolidate lv) cp)]
                       (select_top_3 (consolidate lv) cp))\<rparr>)"
    unfolding build_plan_result using False T by (simp only: if_False)
  with False assms show ?thesis
    by (simp add: analyze_core_def Let_def)
qed







text \<open>
  C8. With a positive year high and a positive current price the computation returns
  a response: no division fails. Nothing guards the two divisions: as soon as a level
  is selected, a year high of 0 ends in a numeric fault, and so does a current price
  of 0.
\<close>

theorem divisions_unguarded:
  "(0 < yh \<and> 0 < cp \<longrightarrow> (\<exists>r. analyze_core lows cp yh = Inr r))
   \<and> (\<forall>lv. find_levels lows = Inr lv \<and> select_top_3 (consolidate lv) cp \<noteq> [] \<longrightarrow>
          analyze_core lows cp 0 = Inl NumericFault)
   \<and> (\<forall>lv. find_levels lows = Inr lv \<and> select_top_3 (consolidate lv) 0 \<noteq> [] \<longrightarrow>
          analyze_core lows 0 yh = Inl NumericFault)"
proof -
  obtain lv0 where lv0: "find_levels lows = Inr lv0"
    using find_levels_total by blast
  have safe: "\<exists>r. analyze_core lows cp yh = Inr r" if "0 < yh \<and> 0 < cp"
    using that analyze_core_result [OF lv0, of cp yh] by (simp add: Let_def)
  have high: "analyze_core lows cp 0 = Inl NumericFault"
    if "find_levels lows = Inr lv \<and> select_top_3 (consolidate lv) cp \<noteq> []" for lv
    using that analyze_core_result [of lows lv cp 0] by (simp add: Let_def)
  have cur: "analyze_core lows 0 yh = Inl NumericFault"
    if "find_levels lows = Inr lv \<and> select_top_3 (consolidate lv) 0 \<noteq> []" for lv
    using that analyze_core_result [of lows lv 0 yh] by (simp add: Let_def)
  from safe high cur show ?thesis by blast
qed

theorem divisions_unguarded_witness:
  "(\<exists>r. analyze_core [10, 9, 8, 9, 10, 9, 8, 9, 10] 10 12 = Inr r)
   \<and> analyze_core [10, 9, 8, 9, 10, 9, 8, 9, 10] 10 0 = Inl NumericFault
   \<and> analyze_core [0, 0, - 1, 0, 0, - 1, 0, 0] 0 1 = Inl NumericFault"
proof -
  have idx: "[2 ..< length [10, 9, 8, 9, 10, 9, 8, 9, 10 :: real] - 2] = [2, 3, 4, 5, 6]"
    "[2 ..< length [0, 0, - 1, 0, 0, - 1, 0, 0 :: real] - 2] = [2, 3, 4, 5]"
    by (simp_all add: upt_rec)
  have lv1: "find_levels [10, 9, 8, 9, 10, 9, 8, 9, 10] = Inr [8, 8]"
    unfolding find_levels_def idx
    by (simp add: scan_body_def iloc_def lt_at_def and_then_def)
  have sel1: "select_top_3 (consolidate [8, 8]) 10 \<noteq> []"
    by (simp add: select_top_3_def select_waiting_def consolidate_def absorb_filter)
  have lv2: "find_levels [0, 0, - 1, 0, 0, - 1, 0, 0] = Inr [- 1, - 1]"
    unfolding find_levels_def idx
    by (simp add: scan_body_def iloc_def lt_at_def and_then_def)
  have sel2: "select_top_3 (consolidate [- 1, - 1]) 0 \<noteq> []"
    by (simp add: select_top_3_def select_waiting_def consolidate_def absorb_filter)
  from divisions_unguarded [of 12 10 "[10, 9, 8, 9, 10, 9, 8, 9, 10]"]
  have a: "\<exists>r. analyze_core [10, 9, 8, 9, 10, 9, 8, 9, 10] 10 12 = Inr r" by simp
  from divisions_unguarded [of 12 10 "[10, 9, 8, 9, 10, 9, 8, 9, 10]"] lv1 sel1
  have b: "analyze_core [10, 9, 8, 9, 10, 9, 8, 9, 10] 10 0 = Inl NumericFault" by blast
  from divisions_unguarded [of 1 0 "[0, 0, - 1, 0, 0, - 1, 0, 0]"] lv2 sel2
  have c: "analyze_core [0, 0, - 1, 0, 0, - 1, 0, 0] 0 1 = Inl NumericFault" by blast
  from a b c show ?thesis by simp
qed

section \<open>Two runs on the same input\<close>

lemma analyze_run_core:
  "map_sum id response (analyze_run s) =
     analyze_core (df_Low s) (current_price s) (one_year_high s)"
proof -
  obtain lv where lv: "find_levels (df_Low s) = Inr lv"
    using find_levels_total by blast
  note defs = analyze_run_def analyze_core_def find_levels_def Let_def consolidate_def
    select_top_3_def select_waiting_def build_plan_def response_def
  show ?thesis
  proof (cases "5 < length (df_Low s)")
    case True
    with lv have "scan_loop (df_Low s) [2 ..< length (df_Low s) - 2] [] = Inr lv"
      by (simp add: find_levels_def)
    with True show ?thesis
      by (cases "lv = []") (simp_all add: defs split: sum.splits)
  next
    case False
    then show ?thesis
      by (simp add: defs split: sum.splits)
  qed
qed

lemma analyze_run_inputs:
  assumes "analyze_run s = Inr s'"
  shows "df_Low s' = df_Low s \<and> current_price s' = current_price s
       \<and> one_year_high s' = one_year_high s"
  using assms
  by (auto simp: analyze_run_def Let_def split: sum.splits if_splits)

text \<open>
  C10. Two runs that read the same series, current price and year high return the same
  outcome (the same response or the same error), whatever the other variables held at
  the start. A run leaves the three inputs as they were, and a second run started from
  the store the first run left returns the same response. The outcome of a run is the
  value of \<open>analyze_core\<close> on the three inputs.
\<close>

theorem rerun_same_output:
  "(\<forall>s s'. df_Low s = df_Low s' \<and> current_price s = current_price s'
            \<and> one_year_high s = one_year_high s' \<longrightarrow>
        map_sum id response (analyze_run s) = map_sum id response (analyze_run s'))
   \<and> (\<forall>s s1. analyze_run s = Inr s1 \<longrightarrow>
        df_Low s1 = df_Low s \<and> current_price s1 = current_price s
        \<and> one_year_high s1 = one_year_high s
        \<and> (\<exists>s2. analyze_run s1 = Inr s2 \<and> response s2 = response s1))
   \<and> (\<forall>s. map_sum id response (analyze_run s) =
          analyze_core (df_Low s) (current_price s) (one_year_high s))"
proof -
  have same: "map_sum id response (analyze_run s) = map_sum id response (analyze_run s')"
    if "df_Low s = df_Low s' \<and> current_price s = current_price s'
            \<and> one_year_high s = one_year_high s'" for s s'
    using that by (simp add: analyze_run_core)
  have again: "df_Low s1 = df_Low s \<and> current_price s1 = current_price s
        \<and> one_year_high s1 = one_year_high s
        \<and> (\<exists>s2. analyze_run s1 = Inr s2 \<and> response s2 = response s1)"
    if run: "analyze_run s = Inr s1" for s s1
  proof -
    note inp = analyze_run_inputs [OF run]
    then have "map_sum id response (analyze_run s1) = map_sum id response (analyze_run s)"
      by (simp add: analyze_run_core)
    with run have "map_sum id response (analyze_run s1) = Inr (response s1)" by simp
    then have "\<exists>s2. analyze_run s1 = Inr s2 \<and> response s2 = response s1"
      by (cases "analyze_run s1") auto
    with inp show ?thesis by simp
  qed
  from same again analyze_run_core show ?thesis by blast
qed

theorem rerun_same_output_witness:
  "(\<exists>s1 s2.
      analyze_run \<lparr>df_Low = [10, 9, 8, 9, 10, 9, 8, 9, 10], current_price = 10,
                   one_year_high = 12, levels = [1, 2], consolidated = [(5, 5)],
                   waiting = [(4, 4)], top_3 = [(3, 3)], status_msg = ''old'',
                   plan = []\<rparr> = Inr s1
      \<and> analyze_run s1 = Inr s2
      \<and> response s2 = response s1
      \<and> map price (strategic_plan (response s1)) = [8]
      \<and> status (response s1) = status_found)"
proof -
  let ?s = "\<lparr>df_Low = [10, 9, 8, 9, 10, 9, 8, 9, 10], current_price = 10,
                   one_year_high = 12, levels = [1, 2], consolidated = [(5, 5)],
                   waiting = [(4, 4)], top_3 = [(3, 3)], status_msg = ''old'',
                   plan = []\<rparr>"
  have idx: "[2 ..< length [10, 9, 8, 9, 10, 9, 8, 9, 10 :: real] - 2] = [2, 3, 4, 5, 6]"
    by (simp add: upt_rec)
  have lv: "find_levels [10, 9, 8, 9, 10, 9, 8, 9, 10] = Inr [8, 8]"
    unfolding find_levels_def idx
    by (simp add: scan_body_def iloc_def lt_at_def and_then_def)
  have sel: "select_top_3 (consolidate [8, 8]) 10 = [(8, 2)]"
    by (simp add: select_top_3_def select_waiting_def consolidate_def absorb_filter)
  obtain r where r: "analyze_core [10, 9, 8, 9, 10, 9, 8, 9, 10] 10 12 = Inr r"
    and rp: "map price (strategic_plan r) = [8]" and rs: "status r = status_found"
    by (simp add: analyze_core_def lv sel build_plan_result entry_def py_round2_def py_round_def)
  note inst = rerun_same_output
  from inst have "map_sum id response (analyze_run ?s) =
          analyze_core (df_Low ?s) (current_price ?s) (one_year_high ?s)"
    by blast
  with r have "map_sum id response (analyze_run ?s) = Inr r" by simp
  then obtain s1 where s1: "analyze_run ?s = Inr s1" and r1: "response s1 = r"
    by (cases "analyze_run ?s") auto
  from inst s1 obtain s2 where s2: "analyze_run s1 = Inr s2" "response s2 = response s1"
    by blast
  from r1 rp rs have "map price (strategic_plan (response s1)) = [8]"
    and "status (response s1) = status_found"
    by simp_all
  with s1 s2 show ?thesis
    by (intro exI [of _ s1] exI [of _ s2] conjI)
qed

end
